theory Spec2Isabelle
  imports Complex_Main "HOL-Library.AList"
begin

section \<open>Quote records and price resolution (stock\_fetcher.py)\<close>

text \<open>
  A quote record is a Python dict from field names to loosely typed values, kept here
  as the list of its items (key and value, in insertion order); \<open>map_of\<close> reads a key
  and the empty dict is the empty list. The code
  looks at a value in two ways only: \<^verbatim>\<open>is not None\<close> and \<^verbatim>\<open>float(v)\<close>. A value is
  therefore modelled by what these two observations give: \<open>PyNone\<close>, a value that
  \<^verbatim>\<open>float\<close> converts (\<open>Num r\<close>: an int, a float, a bool, a numeric string), a value on
  which \<^verbatim>\<open>float\<close> raises ValueError (\<open>BadValue\<close>: a string such as 'N/A'), a value
  on which it raises TypeError (\<open>BadType\<close>: a list, a dict), and a value on which it
  raises OverflowError (\<open>TooBig\<close>: an int beyond the range of a float, such as
  \<^verbatim>\<open>10**400\<close>). Python floats are idealised as reals: rounding, infinities and NaN are
  outside this model.
\<close>

datatype pyval = PyNone | Num real | BadValue | BadType | TooBig

datatype pyerr = ValueError | TypeError | OverflowError | ZeroDivisionError

type_synonym info = "(string \<times> pyval) list"

fun py_float :: "pyval \<Rightarrow> pyerr + real" where
  "py_float PyNone = Inl TypeError"
| "py_float (Num r) = Inr r"
| "py_float BadValue = Inl ValueError"
| "py_float BadType = Inl TypeError"
| "py_float TooBig = Inl OverflowError"

definition price_fields :: "string list" where
  "price_fields = [''currentPrice'', ''regularMarketPrice'', ''previousClose'', ''open'']"

text \<open>\<^verbatim>\<open>except (ValueError, TypeError)\<close>: the exceptions that the two handlers catch.\<close>

definition caught :: "pyerr \<Rightarrow> bool" where
  "caught e = (e = ValueError \<or> e = TypeError)"

text \<open>
  The loop over the direct price fields. An exception of \<^verbatim>\<open>float\<close> that the handler
  catches goes on with the next field (\<^verbatim>\<open>continue\<close>); any other leaves the function.
  A converted value that is not positive falls out of the \<^verbatim>\<open>try\<close> and the loop goes
  on as well.
\<close>

fun try_price_fields :: "info \<Rightarrow> string list \<Rightarrow> pyerr + real option" where
  "try_price_fields info [] = Inr None"
| "try_price_fields info (field # rest) =
     (case map_of info field of
        None \<Rightarrow> try_price_fields info rest
      | Some v \<Rightarrow>
          if v \<noteq> PyNone then
            (case py_float v of
               Inr price \<Rightarrow>
                 if price > 0 then Inr (Some price) else try_price_fields info rest
             | Inl e \<Rightarrow> if caught e then try_price_fields info rest else Inl e)
          else try_price_fields info rest)"

text \<open>\<^verbatim>\<open>float(info[k]) if info[k] is not None else 0\<close>\<close>

definition float_or_zero :: "pyval \<Rightarrow> pyerr + real" where
  "float_or_zero v = (if v \<noteq> PyNone then py_float v else Inr 0)"

text \<open>
  The bid/ask fallback: \<open>bid\<close> is converted first, then \<open>ask\<close>; a caught exception ends
  in \<^verbatim>\<open>pass\<close> and the final \<^verbatim>\<open>return None\<close>, any other leaves the function.
\<close>

definition bid_ask_average :: "info \<Rightarrow> pyerr + real option" where
  "bid_ask_average info =
     (case map_of info ''bid'' of
        None \<Rightarrow> Inr None
      | Some b \<Rightarrow>
          (case map_of info ''ask'' of
             None \<Rightarrow> Inr None
           | Some a \<Rightarrow>
               (case float_or_zero b of
                  Inl e \<Rightarrow> if caught e then Inr None else Inl e
                | Inr bid \<Rightarrow>
                    (case float_or_zero a of
                       Inl e \<Rightarrow> if caught e then Inr None else Inl e
                     | Inr ask \<Rightarrow>
                         if bid > 0 \<and> ask > 0 then Inr (Some ((bid + ask) / 2))
                         else Inr None))))"

definition extract_price_from_info :: "info \<Rightarrow> pyerr + real option" where
  "extract_price_from_info info =
     (case try_price_fields info price_fields of
        Inl e \<Rightarrow> Inl e
      | Inr (Some price) \<Rightarrow> Inr (Some price)
      | Inr None \<Rightarrow> bid_ask_average info)"

subsection \<open>The resolution policy as the specification words it\<close>

text \<open>
  A field is usable when it is present, non-null and convertible to a float strictly
  greater than 0; \<open>usable\<close> gives that float.
\<close>

definition usable :: "info \<Rightarrow> string \<Rightarrow> real option" where
  "usable info f =
     (case map_of info f of
        Some (Num r) \<Rightarrow> if r > 0 then Some r else None
      | _ \<Rightarrow> None)"

definition resolve_spec :: "info \<Rightarrow> real option" where
  "resolve_spec info =
     (case find (\<lambda>f. usable info f \<noteq> None)
             [''currentPrice'', ''regularMarketPrice'', ''previousClose'', ''open''] of
        Some f \<Rightarrow> usable info f
      | None \<Rightarrow>
          (case usable info ''bid'' of
             None \<Rightarrow> None
           | Some bid \<Rightarrow>
               (case usable info ''ask'' of
                  None \<Rightarrow> None
                | Some ask \<Rightarrow> Some ((bid + ask) / 2))))"

lemma try_price_fields_find:
  assumes "\<forall>f \<in> set fs. map_of info f \<noteq> Some TooBig"
  shows "try_price_fields info fs =
     Inr (case find (\<lambda>f. usable info f \<noteq> None) fs of
            Some f \<Rightarrow> usable info f
          | None \<Rightarrow> None)"
  using assms
proof (induction fs)
  case Nil
  show ?case by simp
next
  case (Cons f fs)
  show ?case
  proof (cases "map_of info f")
    case None
    with Cons show ?thesis by (simp add: usable_def)
  next
    case (Some v)
    with Cons show ?thesis by (cases v) (simp_all add: usable_def caught_def)
  qed
qed

lemma bid_ask_average_usable:
  assumes "map_of info ''bid'' \<noteq> Some TooBig" and "map_of info ''ask'' \<noteq> Some TooBig"
  shows "bid_ask_average info =
     Inr (case usable info ''bid'' of
            None \<Rightarrow> None
          | Some bid \<Rightarrow>
              (case usable info ''ask'' of
                 None \<Rightarrow> None
               | Some ask \<Rightarrow> Some ((bid + ask) / 2)))"
proof (cases "map_of info ''bid''")
  case None
  then show ?thesis by (simp add: bid_ask_average_def usable_def)
next
  case b: (Some b)
  show ?thesis
  proof (cases "map_of info ''ask''")
    case None
    with b show ?thesis
      by (cases b) (simp_all add: bid_ask_average_def usable_def)
  next
    case a: (Some a)
    from a b assms show ?thesis
      by (cases b; cases a)
        (simp_all add: bid_ask_average_def usable_def float_or_zero_def caught_def)
  qed
qed

text \<open>
  On every record none of whose six price fields holds an int beyond the float range,
  the code returns, and returns the price the resolution policy names: the first
  usable field among currentPrice, regularMarketPrice, previousClose, open; failing
  that the mean of bid and ask when both are usable; failing that nothing. In
  particular \<open>{bid: 10, ask: null}\<close> gives nothing.
\<close>

lemma extract_price_resolves:
  assumes "\<forall>f \<in> set (price_fields @ [''bid'', ''ask'']). map_of info f \<noteq> Some TooBig"
  shows "extract_price_from_info info = Inr (resolve_spec info)"
proof -
  from assms have direct: "\<forall>f \<in> set price_fields. map_of info f \<noteq> Some TooBig"
    and bid: "map_of info ''bid'' \<noteq> Some TooBig"
    and ask: "map_of info ''ask'' \<noteq> Some TooBig"
    by simp_all
  show ?thesis
    unfolding extract_price_from_info_def resolve_spec_def
      try_price_fields_find [OF direct] bid_ask_average_usable [OF bid ask]
    by (simp add: price_fields_def split: option.splits)
qed

lemma extract_price_partial_quote:
  "extract_price_from_info [(''bid'', Num 10), (''ask'', PyNone)] = Inr None"
  by (simp add: extract_price_from_info_def price_fields_def bid_ask_average_def
      float_or_zero_def)

text \<open>
  C1, evaluated on the code. The policy skips a field that is not convertible to a
  float and takes the next usable one. The record \<open>{currentPrice: 10**400, open: 5}\<close>
  has the usable field \<open>open\<close>, and the policy resolves it to 5; the code raises
  OverflowError at \<open>currentPrice\<close>, which \<^verbatim>\<open>except (ValueError, TypeError)\<close> does not
  catch. The same happens in the fallback on \<open>{bid: 10**400, ask: 12}\<close>, where the
  policy gives nothing. A field that is a non-numeric string is skipped as the policy
  says.
\<close>

theorem overflow_field_raises:
  "extract_price_from_info [(''currentPrice'', TooBig), (''open'', Num 5)] = Inl OverflowError \<and>
   resolve_spec [(''currentPrice'', TooBig), (''open'', Num 5)] = Some 5 \<and>
   extract_price_from_info [(''bid'', TooBig), (''ask'', Num 12)] = Inl OverflowError \<and>
   resolve_spec [(''bid'', TooBig), (''ask'', Num 12)] = None \<and>
   extract_price_from_info [(''currentPrice'', BadValue), (''open'', Num 5)] = Inr (Some 5)"
  by (simp add: extract_price_from_info_def resolve_spec_def usable_def price_fields_def
      bid_ask_average_def float_or_zero_def caught_def)

section \<open>Ticker strings\<close>

text \<open>
  Ticker strings are taken over the 8-bit characters of \<open>string\<close>. \<open>py_isspace\<close> is
  Python's \<^verbatim>\<open>str.isspace\<close> on the code points below 256 (tab to carriage return, the
  four separators 28 to 31, space, next-line 133 and no-break space 160), which is what
  \<^verbatim>\<open>str.strip()\<close> removes from both ends. \<open>py_upper\<close> is \<^verbatim>\<open>str.upper()\<close> on ASCII
  text: the letters a to z are mapped to A to Z and every other character is kept
  (the upper-casing of non-ASCII letters is outside this model).
\<close>

definition py_isspace :: "char \<Rightarrow> bool" where
  "py_isspace c =
     (let n = (of_char c :: nat)
      in (9 \<le> n \<and> n \<le> 13) \<or> (28 \<le> n \<and> n \<le> 32) \<or> n = 133 \<or> n = 160)"

definition py_strip :: "string \<Rightarrow> string" where
  "py_strip s = rev (dropWhile py_isspace (rev (dropWhile py_isspace s)))"

definition upper_char :: "char \<Rightarrow> char" where
  "upper_char c =
     (let n = (of_char c :: nat)
      in if 97 \<le> n \<and> n \<le> 122 then char_of (n - 32) else c)"

definition py_upper :: "string \<Rightarrow> string" where
  "py_upper s = map upper_char s"

section \<open>Fetching with retries (stock\_fetcher.py)\<close>

text \<open>
  The data provider (\<^verbatim>\<open>yf.Ticker(t).info\<close>) is the outside world. One lookup either
  raises or returns a record. What the fetcher does to the world is a trace of events:
  each lookup with the key it was made with, and each \<^verbatim>\<open>time.sleep\<close> with its delay.
  The provider's answer to a lookup may depend on everything that happened before, so
  a provider is a function of the trace so far and of the key.
\<close>

datatype lookup_result = Raises | Info info

datatype event = Lookup string | Sleep real

type_synonym provider = "event list \<Rightarrow> string \<Rightarrow> lookup_result"

text \<open>
  The body of \<^verbatim>\<open>for attempt in range(MAX_RETRIES)\<close>, over the attempts still to run.
  \<^verbatim>\<open>MAX_RETRIES\<close> and \<^verbatim>\<open>RETRY_DELAY_SECONDS\<close> come from config.py, which is not part of
  the sources: they are the parameters \<open>max_retries\<close> and \<open>retry_delay\<close>.
  An empty record is falsy, and \<^verbatim>\<open>continue\<close> then leaves the loop body at once: the
  \<^verbatim>\<open>time.sleep\<close> at the end of the body is not reached on that path. An exception
  that leaves \<^verbatim>\<open>_extract_price_from_info\<close> is caught by \<^verbatim>\<open>except Exception\<close>, as one of
  the lookup is.
\<close>

fun attempts :: "provider \<Rightarrow> int \<Rightarrow> real \<Rightarrow> string \<Rightarrow> int list \<Rightarrow> event list
    \<Rightarrow> real option \<times> event list" where
  "attempts P max_retries retry_delay ticker [] tr = (None, tr)"
| "attempts P max_retries retry_delay ticker (attempt # rest) tr =
     (let tr1 = tr @ [Lookup ticker];
          tr2 = (if attempt < max_retries - 1 then tr1 @ [Sleep retry_delay] else tr1)
      in case P tr ticker of
           Raises \<Rightarrow> attempts P max_retries retry_delay ticker rest tr2
         | Info info \<Rightarrow>
             if info = [] then attempts P max_retries retry_delay ticker rest tr1
             else
               (case extract_price_from_info info of
                  Inr (Some price) \<Rightarrow> (Some price, tr1)
                | Inr None \<Rightarrow> attempts P max_retries retry_delay ticker rest tr2
                | Inl e \<Rightarrow> attempts P max_retries retry_delay ticker rest tr2))"

definition get_ticker_price :: "provider \<Rightarrow> int \<Rightarrow> real \<Rightarrow> string \<Rightarrow> event list
    \<Rightarrow> real option \<times> event list" where
  "get_ticker_price P max_retries retry_delay ticker tr =
     (if ticker = [] \<or> py_strip ticker = [] then (None, tr)
      else attempts P max_retries retry_delay (py_upper (py_strip ticker))
             [0..max_retries - 1] tr)"

text \<open>
  \<^verbatim>\<open>get_exchange_rate\<close>: one lookup with the currency pair as given, no retry loop, and
  every exception (also the one \<^verbatim>\<open>float\<close> raises) ends in \<^verbatim>\<open>return None\<close>.
\<close>

definition get_exchange_rate :: "provider \<Rightarrow> string \<Rightarrow> event list
    \<Rightarrow> real option \<times> event list" where
  "get_exchange_rate P currency_pair tr =
     (let tr1 = tr @ [Lookup currency_pair]
      in case P tr currency_pair of
           Raises \<Rightarrow> (None, tr1)
         | Info info \<Rightarrow>
             if info \<noteq> [] then
               (case map_of info ''previousClose'' of
                  None \<Rightarrow> (None, tr1)
                | Some v \<Rightarrow>
                    (case py_float v of
                       Inr rate \<Rightarrow> (Some rate, tr1)
                     | Inl e \<Rightarrow> (None, tr1)))
             else (None, tr1))"

text \<open>
  \<^verbatim>\<open>get_multiple_prices\<close>: the result dict is keyed by the list element as it was
  given; a dict value may be \<^verbatim>\<open>None\<close>, so an entry is a \<open>real option\<close>. The dict is
  the list of its items: \<open>AList.update\<close> is \<^verbatim>\<open>results[k] = v\<close> (a new key goes to the
  end, a key already there keeps its place and takes the new value).
\<close>

type_synonym prices = "(string \<times> real option) list"

fun prices_loop :: "provider \<Rightarrow> int \<Rightarrow> real \<Rightarrow> string list \<Rightarrow> prices \<times> event list
    \<Rightarrow> prices \<times> event list" where
  "prices_loop P max_retries retry_delay [] (results, tr) = (results, tr)"
| "prices_loop P max_retries retry_delay (ticker # rest) (results, tr) =
     (if ticker \<noteq> [] \<and> py_strip ticker \<noteq> [] then
        (case get_ticker_price P max_retries retry_delay ticker tr of
           (price, tr') \<Rightarrow>
             prices_loop P max_retries retry_delay rest
               (AList.update ticker price results, tr'))
      else prices_loop P max_retries retry_delay rest (AList.update ticker None results, tr))"

definition get_multiple_prices :: "provider \<Rightarrow> int \<Rightarrow> real \<Rightarrow> string list \<Rightarrow> event list
    \<Rightarrow> prices \<times> event list" where
  "get_multiple_prices P max_retries retry_delay tickers tr =
     prices_loop P max_retries retry_delay tickers ([], tr)"

subsection \<open>Retries and delays\<close>

definition sleeps :: "event list \<Rightarrow> nat" where
  "sleeps tr = length (filter (\<lambda>e. case e of Sleep d \<Rightarrow> True | Lookup k \<Rightarrow> False) tr)"

definition lookups :: "event list \<Rightarrow> nat" where
  "lookups tr = length (filter (\<lambda>e. case e of Lookup k \<Rightarrow> True | Sleep d \<Rightarrow> False) tr)"

text \<open>
  Lookups with one delay between each two: \<open>spaced n k d\<close> is \<open>n + 1\<close> lookups of the key
  \<open>k\<close> and \<open>n\<close> delays.
\<close>

fun spaced :: "nat \<Rightarrow> string \<Rightarrow> real \<Rightarrow> event list" where
  "spaced 0 k d = [Lookup k]"
| "spaced (Suc n) k d = Lookup k # Sleep d # spaced n k d"

lemma attempts_spaced:
  assumes ne: "\<And>tr k. P tr k \<noteq> Info []"
  shows "a \<le> m - 1 \<Longrightarrow>
     \<exists>n. int n \<le> m - 1 - a \<and>
         snd (attempts P m d k [a..m - 1] tr) = tr @ spaced n k d \<and>
         (fst (attempts P m d k [a..m - 1] tr) = None \<longrightarrow> int n = m - 1 - a)"
proof (induction "nat (m - a)" arbitrary: a tr)
  case 0
  then show ?case by simp
next
  case (Suc j)
  have unfold: "[a..m - 1] = a # [a + 1..m - 1]"
    using Suc.prems by (rule upto_rec1)
  let ?tr1 = "tr @ [Lookup k]"
  let ?tr2 = "tr @ [Lookup k, Sleep d]"
  have stop: "\<exists>n. int n \<le> m - 1 - a \<and> ?tr1 = tr @ spaced n k d"
    using Suc.prems by (intro exI [of _ 0]) simp
  have retry: "\<exists>n. int n \<le> m - 1 - a \<and>
         snd (attempts P m d k [a + 1..m - 1]
                (if a < m - 1 then ?tr1 @ [Sleep d] else ?tr1)) = tr @ spaced n k d \<and>
         (fst (attempts P m d k [a + 1..m - 1]
                (if a < m - 1 then ?tr1 @ [Sleep d] else ?tr1)) = None
            \<longrightarrow> int n = m - 1 - a)"
  proof (cases "a < m - 1")
    case True
    then have "j = nat (m - (a + 1))" and "a + 1 \<le> m - 1"
      using Suc.hyps(2) by simp_all
    from Suc.hyps(1) [OF this, of ?tr2]
    obtain n where n: "int n \<le> m - 1 - (a + 1) \<and>
        snd (attempts P m d k [a + 1..m - 1] ?tr2) = ?tr2 @ spaced n k d \<and>
        (fst (attempts P m d k [a + 1..m - 1] ?tr2) = None \<longrightarrow> int n = m - 1 - (a + 1))"
      ..
    show ?thesis
      using True n by (intro exI [of _ "Suc n"]) simp
  next
    case False
    with Suc.prems have "a = m - 1" by simp
    then show ?thesis
      by (intro exI [of _ 0]) simp
  qed
  show ?case
  proof (cases "P tr k")
    case Raises
    with retry show ?thesis
      by (simp add: unfold Let_def)
  next
    case (Info info)
    with ne [of tr k] have "info \<noteq> []" by auto
    show ?thesis
    proof (cases "extract_price_from_info info")
      case (Inl e)
      with Info \<open>info \<noteq> []\<close> retry show ?thesis
        by (simp add: unfold Let_def)
    next
      case (Inr result)
      show ?thesis
      proof (cases result)
        case None
        with Inr Info \<open>info \<noteq> []\<close> retry show ?thesis
          by (simp add: unfold Let_def)
      next
        case (Some price)
        with Inr Info \<open>info \<noteq> []\<close> stop show ?thesis
          by (simp add: unfold Let_def)
      qed
    qed
  qed
qed

lemma sleeps_spaced: "sleeps (tr @ spaced n k d) = sleeps tr + n"
  by (induction n arbitrary: tr) (simp_all add: sleeps_def)

lemma lookups_spaced: "lookups (tr @ spaced n k d) = lookups tr + n + 1"
  by (induction n arbitrary: tr) (simp_all add: lookups_def)

text \<open>
  A provider that never returns the empty record: whether its lookups raise, give
  records that resolve to nothing or give records on which the resolution raises,
  \<open>get_ticker_price\<close> makes at most \<open>max_retries\<close>
  lookups with one delay between each two and none after the last, and it gives up
  only after all \<open>max_retries\<close> of them.
\<close>

lemma get_ticker_price_spaced:
  assumes "\<And>tr k. P tr k \<noteq> Info []" and "1 \<le> m" and "py_strip ticker \<noteq> []"
  shows "\<exists>n. int n \<le> m - 1 \<and>
     snd (get_ticker_price P m d ticker tr) = tr @ spaced n (py_upper (py_strip ticker)) d \<and>
     (fst (get_ticker_price P m d ticker tr) = None \<longrightarrow> int n = m - 1)"
proof -
  from assms(3) have "ticker \<noteq> []"
    by (auto simp add: py_strip_def)
  with assms(3) have "get_ticker_price P m d ticker tr =
      attempts P m d (py_upper (py_strip ticker)) [0..m - 1] tr"
    by (simp add: get_ticker_price_def)
  moreover from assms(2) have "0 \<le> m - 1"
    by simp
  ultimately show ?thesis
    using attempts_spaced [of P 0 m d "py_upper (py_strip ticker)" tr, OF assms(1)]
    by simp
qed

text \<open>
  C2, evaluated on the code with \<^verbatim>\<open>MAX_RETRIES = 3\<close>. A lookup that raises three times,
  and one whose record resolves to nothing three times, are each followed by a delay
  but for the last: three lookups, two delays (\<open>get_ticker_price_spaced\<close> is the general
  fact). A lookup that returns the empty record three times is never followed by a
  delay: the \<^verbatim>\<open>continue\<close> of that branch skips the \<^verbatim>\<open>time.sleep\<close>, so there are three
  lookups and no delay. Two empty records and then a price give the price after no
  delay at all.
\<close>

theorem empty_record_skips_delay:
  "get_ticker_price (\<lambda>tr k. Raises) 3 d ''AAPL'' [] =
     (None, [Lookup ''AAPL'', Sleep d, Lookup ''AAPL'', Sleep d, Lookup ''AAPL'']) \<and>
   get_ticker_price (\<lambda>tr k. Info [(''volume'', Num 7)]) 3 d ''AAPL'' [] =
     (None, [Lookup ''AAPL'', Sleep d, Lookup ''AAPL'', Sleep d, Lookup ''AAPL'']) \<and>
   get_ticker_price (\<lambda>tr k. Info []) 3 d ''AAPL'' [] =
     (None, [Lookup ''AAPL'', Lookup ''AAPL'', Lookup ''AAPL'']) \<and>
   sleeps (snd (get_ticker_price (\<lambda>tr k. Info []) 3 d ''AAPL'' [])) = 0 \<and>
   lookups (snd (get_ticker_price (\<lambda>tr k. Info []) 3 d ''AAPL'' [])) = 3 \<and>
   get_ticker_price
     (\<lambda>tr k. if length tr < 2 then Info [] else Info [(''currentPrice'', Num 5)])
     3 d ''AAPL'' [] =
     (Some 5, [Lookup ''AAPL'', Lookup ''AAPL'', Lookup ''AAPL''])"
  by code_simp

subsection \<open>Empty tickers\<close>

lemma py_strip_all_space:
  assumes "list_all py_isspace s"
  shows "py_strip s = []"
proof -
  from assms have d: "dropWhile py_isspace s = []"
    by (induction s) simp_all
  show ?thesis
    unfolding py_strip_def d by simp
qed

text \<open>
  C7. For every ticker that is empty or consists of whitespace only, and whatever the
  provider, the retry bound and the trace so far, \<open>get_ticker_price\<close> returns nothing
  and leaves the trace as it was: no lookup is made and no delay is taken.
\<close>

theorem blank_ticker_no_lookup:
  assumes "list_all py_isspace ticker"
  shows "get_ticker_price P max_retries retry_delay ticker tr = (None, tr)"
  using py_strip_all_space [OF assms] by (simp add: get_ticker_price_def)

theorem blank_ticker_no_lookup_witness:
  "list_all py_isspace ''   '' \<and>
   get_ticker_price (\<lambda>tr k. Info [(''currentPrice'', Num 5)]) 3 1 ''   '' [] = (None, []) \<and>
   get_ticker_price (\<lambda>tr k. Info [(''currentPrice'', Num 5)]) 3 1 [] [] = (None, [])"
proof -
  have blank: "list_all py_isspace ''   ''"
    by (simp add: py_isspace_def)
  have none: "list_all py_isspace []"
    by simp
  show ?thesis
    using blank blank_ticker_no_lookup [OF blank] blank_ticker_no_lookup [OF none]
    by simp
qed

subsection \<open>The exchange rate\<close>

text \<open>
  C10 as stated fails on a record whose \<^verbatim>\<open>previousClose\<close> is present and null: the field
  is there, and nothing is returned (\<^verbatim>\<open>float(None)\<close> raises, and the exception is caught).
\<close>

theorem exchange_rate_null_close:
  "map_of [(''previousClose'', PyNone)] ''previousClose'' \<noteq> None \<and>
   get_exchange_rate (\<lambda>tr k. Info [(''previousClose'', PyNone)]) ''CAD=X'' [] =
     (None, [Lookup ''CAD=X''])"
  by (simp add: get_exchange_rate_def)

text \<open>
  C10, amended. \<open>get_exchange_rate\<close> makes exactly one lookup and takes no delay,
  whatever the outcome. When the record has a \<^verbatim>\<open>previousClose\<close> that \<^verbatim>\<open>float\<close> converts,
  that float is returned whatever its sign, also when the record has a usable
  \<^verbatim>\<open>currentPrice\<close> that price resolution would prefer. When the field is missing, or
  present but null or not convertible, when the record is empty or the lookup raises,
  nothing is returned.
\<close>

theorem exchange_rate_single_lookup:
  "snd (get_exchange_rate P pair tr) = tr @ [Lookup pair] \<and>
   (\<forall>info r. P tr pair = Info info \<and> map_of info ''previousClose'' = Some (Num r)
      \<longrightarrow> fst (get_exchange_rate P pair tr) = Some r) \<and>
   (\<forall>info v. P tr pair = Info info \<and> map_of info ''previousClose'' = Some v \<and>
      v \<in> {PyNone, BadValue, BadType, TooBig}
      \<longrightarrow> fst (get_exchange_rate P pair tr) = None) \<and>
   (\<forall>info. P tr pair = Info info \<and> map_of info ''previousClose'' = None
      \<longrightarrow> fst (get_exchange_rate P pair tr) = None) \<and>
   (P tr pair = Info [] \<longrightarrow> fst (get_exchange_rate P pair tr) = None) \<and>
   (P tr pair = Raises \<longrightarrow> fst (get_exchange_rate P pair tr) = None)"
proof (cases "P tr pair")
  case Raises
  then show ?thesis by (simp add: get_exchange_rate_def)
next
  case (Info info)
  show ?thesis
  proof (cases "map_of info ''previousClose''")
    case None
    with Info show ?thesis by (simp add: get_exchange_rate_def Let_def)
  next
    case (Some v)
    then have "info \<noteq> []" by auto
    with Info Some show ?thesis
      by (cases v) (simp_all add: get_exchange_rate_def)
  qed
qed

theorem exchange_rate_single_lookup_witness:
  "get_exchange_rate
     (\<lambda>tr k. Info [(''currentPrice'', Num 2), (''previousClose'', Num (- 3))]) ''CAD=X'' [] =
     (Some (- 3), [Lookup ''CAD=X'']) \<and>
   get_exchange_rate (\<lambda>tr k. Info [(''previousClose'', Num 0)]) ''CAD=X'' [] =
     (Some 0, [Lookup ''CAD=X'']) \<and>
   get_exchange_rate (\<lambda>tr k. Info [(''currentPrice'', Num 2)]) ''CAD=X'' [] =
     (None, [Lookup ''CAD=X'']) \<and>
   get_exchange_rate (\<lambda>tr k. Info [(''previousClose'', BadValue)]) ''CAD=X'' [] =
     (None, [Lookup ''CAD=X'']) \<and>
   get_exchange_rate (\<lambda>tr k. Info []) ''CAD=X'' [] = (None, [Lookup ''CAD=X'']) \<and>
   get_exchange_rate (\<lambda>tr k. Raises) ''CAD=X'' [] = (None, [Lookup ''CAD=X''])"
proof -
  let ?F = "\<lambda>(tr :: event list) (k :: string). Info [(''previousClose'', BadValue)]"
  have f: "get_exchange_rate ?F ''CAD=X'' [] = (None, [Lookup ''CAD=X''])"
    using exchange_rate_single_lookup [of ?F "''CAD=X''" "[]"]
    by (simp add: prod_eq_iff)
  let ?A = "\<lambda>(tr :: event list) (k :: string).
              Info [(''currentPrice'', Num 2), (''previousClose'', Num (- 3))]"
  let ?B = "\<lambda>(tr :: event list) (k :: string). Info [(''previousClose'', Num 0)]"
  let ?C = "\<lambda>(tr :: event list) (k :: string). Info [(''currentPrice'', Num 2)]"
  let ?D = "\<lambda>(tr :: event list) (k :: string). Info []"
  let ?E = "\<lambda>(tr :: event list) (k :: string). Raises"
  have a: "get_exchange_rate ?A ''CAD=X'' [] = (Some (- 3), [Lookup ''CAD=X''])"
    using exchange_rate_single_lookup [of ?A "''CAD=X''" "[]"]
    by (simp add: prod_eq_iff)
  have b: "get_exchange_rate ?B ''CAD=X'' [] = (Some 0, [Lookup ''CAD=X''])"
    using exchange_rate_single_lookup [of ?B "''CAD=X''" "[]"]
    by (simp add: prod_eq_iff)
  have c: "get_exchange_rate ?C ''CAD=X'' [] = (None, [Lookup ''CAD=X''])"
    using exchange_rate_single_lookup [of ?C "''CAD=X''" "[]"]
    by (simp add: prod_eq_iff)
  have d: "get_exchange_rate ?D ''CAD=X'' [] = (None, [Lookup ''CAD=X''])"
    using exchange_rate_single_lookup [of ?D "''CAD=X''" "[]"]
    by (simp add: prod_eq_iff)
  have e: "get_exchange_rate ?E ''CAD=X'' [] = (None, [Lookup ''CAD=X''])"
    using exchange_rate_single_lookup [of ?E "''CAD=X''" "[]"]
    by (simp add: prod_eq_iff)
  from a b c d e f show ?thesis by simp
qed

subsection \<open>Batches of tickers\<close>

lemma prices_loop_append:
  "prices_loop P m d (xs @ ys) st = prices_loop P m d ys (prices_loop P m d xs st)"
proof (induction xs arbitrary: st)
  case Nil
  show ?case by (cases st) simp
next
  case (Cons x xs)
  show ?case
    by (cases st) (simp add: Cons split: prod.splits)
qed

lemma prices_loop_step:
  "prices_loop P m d [t] (res, tr) =
     (AList.update t (fst (get_ticker_price P m d t tr)) res,
      snd (get_ticker_price P m d t tr))"
proof (cases "t \<noteq> [] \<and> py_strip t \<noteq> []")
  case True
  then show ?thesis by (simp split: prod.splits)
next
  case False
  then have "get_ticker_price P m d t tr = (None, tr)"
    by (auto simp add: get_ticker_price_def)
  with False show ?thesis by auto
qed

lemma prices_loop_keys:
  "fst ` set (fst (prices_loop P m d ts (res, tr))) = set ts \<union> fst ` set res"
proof (induction ts arbitrary: res tr)
  case Nil
  show ?case by simp
next
  case (Cons t ts)
  show ?case
    by (auto simp add: Cons dom_update split: prod.splits)
qed

lemma prices_loop_distinct:
  "distinct (map fst res) \<Longrightarrow> distinct (map fst (fst (prices_loop P m d ts (res, tr))))"
proof (induction ts arbitrary: res tr)
  case Nil
  then show ?case by simp
next
  case (Cons t ts)
  then show ?case
    by (auto simp add: distinct_update split: prod.splits)
qed

lemma prices_loop_other:
  "k \<notin> set ts \<Longrightarrow> map_of (fst (prices_loop P m d ts (res, tr))) k = map_of res k"
proof (induction ts arbitrary: res tr)
  case Nil
  show ?case by simp
next
  case (Cons t ts)
  then show ?case
    by (auto simp add: update_conv' split: prod.splits)
qed

text \<open>
  C5. For every list of tickers, provider and starting trace, the dict that
  \<open>get_multiple_prices\<close> returns has exactly one entry per distinct ticker of the list.
  The entry of a ticker is what the single-ticker fetch returned at the ticker's last
  place in the list (last write wins), be it a price or nothing. The tickers that come
  after a place in the list leave the entries of every other ticker as they were,
  whether their own fetches succeed or exhaust their retries; the batch always runs
  to the end of the list.
\<close>

theorem multiple_prices_entries:
  "distinct (map fst (fst (get_multiple_prices P m d ts tr))) \<and>
   set (map fst (fst (get_multiple_prices P m d ts tr))) = set ts \<and>
   (\<forall>pre t post. ts = pre @ t # post \<and> t \<notin> set post \<longrightarrow>
      map_of (fst (get_multiple_prices P m d ts tr)) t =
        Some (fst (get_ticker_price P m d t (snd (get_multiple_prices P m d pre tr))))) \<and>
   (\<forall>pre post k. ts = pre @ post \<and> k \<notin> set post \<longrightarrow>
      map_of (fst (get_multiple_prices P m d ts tr)) k =
        map_of (fst (get_multiple_prices P m d pre tr)) k)"
proof (intro conjI allI impI)
  show "distinct (map fst (fst (get_multiple_prices P m d ts tr)))"
    unfolding get_multiple_prices_def by (rule prices_loop_distinct) simp
next
  show "set (map fst (fst (get_multiple_prices P m d ts tr))) = set ts"
    unfolding get_multiple_prices_def by (simp add: prices_loop_keys)
next
  fix pre t post
  assume a: "ts = pre @ t # post \<and> t \<notin> set post"
  obtain res1 tr1 where s1: "prices_loop P m d pre ([], tr) = (res1, tr1)"
    by (cases "prices_loop P m d pre ([], tr)")
  let ?v = "fst (get_ticker_price P m d t tr1)"
  let ?tr2 = "snd (get_ticker_price P m d t tr1)"
  have "prices_loop P m d ts ([], tr) = prices_loop P m d ([t] @ post) (res1, tr1)"
    using a s1 by (simp add: prices_loop_append)
  also have "\<dots> = prices_loop P m d post (prices_loop P m d [t] (res1, tr1))"
    by (rule prices_loop_append)
  also have "\<dots> = prices_loop P m d post (AList.update t ?v res1, ?tr2)"
    by (simp only: prices_loop_step)
  finally have "map_of (fst (prices_loop P m d ts ([], tr))) t =
          map_of (AList.update t ?v res1) t"
    using a by (simp add: prices_loop_other)
  then show "map_of (fst (get_multiple_prices P m d ts tr)) t =
        Some (fst (get_ticker_price P m d t (snd (get_multiple_prices P m d pre tr))))"
    by (simp add: get_multiple_prices_def s1 update_conv')
next
  fix pre post k
  assume a: "ts = pre @ post \<and> k \<notin> set post"
  obtain res1 tr1 where s1: "prices_loop P m d pre ([], tr) = (res1, tr1)"
    by (cases "prices_loop P m d pre ([], tr)")
  show "map_of (fst (get_multiple_prices P m d ts tr)) k =
        map_of (fst (get_multiple_prices P m d pre tr)) k"
    using a by (simp add: get_multiple_prices_def prices_loop_append s1 prices_loop_other)
qed

definition msft_down :: provider where
  "msft_down tr k = (if k = ''MSFT'' then Raises else Info [(''currentPrice'', Num 5)])"

theorem multiple_prices_entries_witness:
  "[''AAPL'', ''MSFT'', ''AAPL''] = [''AAPL'', ''MSFT''] @ ''AAPL'' # [] \<and>
   ''AAPL'' \<notin> set [] \<and>
   fst (get_multiple_prices msft_down 3 1 [''AAPL'', ''MSFT'', ''AAPL''] []) =
     [(''AAPL'', Some 5), (''MSFT'', None)] \<and>
   map_of (fst (get_multiple_prices msft_down 3 1 [''AAPL'', ''MSFT'', ''AAPL''] [])) ''AAPL'' =
     Some (fst (get_ticker_price msft_down 3 1 ''AAPL''
       (snd (get_multiple_prices msft_down 3 1 [''AAPL'', ''MSFT''] []))))"
proof -
  have split: "[''AAPL'', ''MSFT'', ''AAPL''] = [''AAPL'', ''MSFT''] @ ''AAPL'' # [] \<and>
      ''AAPL'' \<notin> set []"
    by simp
  have run: "fst (get_multiple_prices msft_down 3 1 [''AAPL'', ''MSFT'', ''AAPL''] []) =
      [(''AAPL'', Some 5), (''MSFT'', None)]"
    by code_simp
  from multiple_prices_entries [of msft_down 3 1 "[''AAPL'', ''MSFT'', ''AAPL'']" "[]"]
  have "\<forall>pre t post. [''AAPL'', ''MSFT'', ''AAPL''] = pre @ t # post \<and> t \<notin> set post \<longrightarrow>
      map_of (fst (get_multiple_prices msft_down 3 1 [''AAPL'', ''MSFT'', ''AAPL''] [])) t =
        Some (fst (get_ticker_price msft_down 3 1 t
          (snd (get_multiple_prices msft_down 3 1 pre []))))"
    by blast
  with split have "map_of
      (fst (get_multiple_prices msft_down 3 1 [''AAPL'', ''MSFT'', ''AAPL''] [])) ''AAPL'' =
     Some (fst (get_ticker_price msft_down 3 1 ''AAPL''
       (snd (get_multiple_prices msft_down 3 1 [''AAPL'', ''MSFT''] []))))"
    by blast
  with split run show ?thesis by blast
qed

subsection \<open>Ticker normalisation\<close>




section \<open>Scheduling (scheduler.py)\<close>

text \<open>
  A naive \<^verbatim>\<open>datetime\<close> has no time zone, no daylight saving and no leap second: it is
  a count of microseconds on the proleptic calendar, and the difference of two of them
  is an exact \<^verbatim>\<open>timedelta\<close>. A datetime is modelled by the number of microseconds since
  midnight at the start of day 0, a timedelta by a number of microseconds. The
  bounds \<^verbatim>\<open>datetime.min\<close> and \<^verbatim>\<open>datetime.max\<close> are not modelled.
\<close>

type_synonym datetime = int

definition us_per_second :: int where
  "us_per_second = 1000000"

definition us_per_minute :: int where
  "us_per_minute = 60000000"

definition us_per_hour :: int where
  "us_per_hour = 3600000000"

definition hour :: "datetime \<Rightarrow> int" where
  "hour t = (t div us_per_hour) mod 24"

definition minute :: "datetime \<Rightarrow> int" where
  "minute t = (t div us_per_minute) mod 60"

definition microsecond :: "datetime \<Rightarrow> int" where
  "microsecond t = t mod us_per_second"

text \<open>The datetime at \<open>h:m:s.us\<close> on day \<open>day\<close>.\<close>

definition datetime_of :: "int \<Rightarrow> int \<Rightarrow> int \<Rightarrow> int \<Rightarrow> int \<Rightarrow> datetime" where
  "datetime_of day h m s us = (((day * 24 + h) * 60 + m) * 60 + s) * 1000000 + us"

text \<open>
  \<^verbatim>\<open>t.replace(minute=m, second=0, microsecond=0)\<close> keeps the date and the hour; it
  raises ValueError when \<open>m\<close> is not a minute.
\<close>

definition top_of_hour :: "datetime \<Rightarrow> datetime" where
  "top_of_hour t = (t div us_per_hour) * us_per_hour"

definition replace_minute :: "datetime \<Rightarrow> int \<Rightarrow> pyerr + datetime" where
  "replace_minute t m =
     (if 0 \<le> m \<and> m < 60 then Inr (top_of_hour t + m * us_per_minute) else Inl ValueError)"

text \<open>
  \<^verbatim>\<open>int(delta.total_seconds())\<close>: the seconds of a timedelta, truncated towards zero.
  (\<^verbatim>\<open>total_seconds\<close> is a float; for the differences below, of at most an hour, the
  float is far more precise than a microsecond and the truncation is exact.)
\<close>

definition int_total_seconds :: "int \<Rightarrow> int" where
  "int_total_seconds delta =
     (if 0 \<le> delta then delta div us_per_second else - ((- delta) div us_per_second))"

text \<open>
  The constants of config.py, which is not part of the sources, are the fields of a
  record; the scheduler object has the one field \<^verbatim>\<open>last_update\<close>.
\<close>

record config =
  MARKET_OPEN_HOUR :: int
  MARKET_CLOSE_HOUR :: int
  UPDATE_INTERVAL_MINUTES :: int

record scheduler =
  last_update :: "datetime option"

definition is_outside_market_hours :: "config \<Rightarrow> datetime \<Rightarrow> bool" where
  "is_outside_market_hours cfg current_time =
     (hour current_time < MARKET_OPEN_HOUR cfg \<or> hour current_time \<ge> MARKET_CLOSE_HOUR cfg)"

text \<open>
  \<^verbatim>\<open>should_update\<close> reads the clock once (\<^verbatim>\<open>datetime.now()\<close>): the reading is the
  argument \<open>now\<close>.
\<close>

definition should_update :: "config \<Rightarrow> scheduler \<Rightarrow> datetime \<Rightarrow> bool \<Rightarrow> bool" where
  "should_update cfg self now force =
     (if force then True
      else if is_outside_market_hours cfg now then False
      else
        (case last_update self of
           None \<Rightarrow> True
         | Some last_time \<Rightarrow>
             (let time_since_last = now - last_time;
                  min_interval = UPDATE_INTERVAL_MINUTES cfg * us_per_minute
              in if time_since_last \<ge> min_interval then True else False)))"

text \<open>
  \<^verbatim>\<open>_calculate_wait_until_next_interval\<close>. Python's \<^verbatim>\<open>//\<close> on ints is floor division,
  as \<open>div\<close> on \<open>int\<close> is, and raises ZeroDivisionError on a zero interval.
\<close>

definition calculate_wait_until_next_interval :: "config \<Rightarrow> datetime \<Rightarrow> pyerr + int" where
  "calculate_wait_until_next_interval cfg current_time =
     (if UPDATE_INTERVAL_MINUTES cfg = 0 then Inl ZeroDivisionError
      else
        (let minutes_past_hour = minute current_time;
             next_interval =
               ((minutes_past_hour div UPDATE_INTERVAL_MINUTES cfg) + 1)
                 * UPDATE_INTERVAL_MINUTES cfg;
             target =
               (if next_interval \<ge> 60 then Inr (top_of_hour (current_time + us_per_hour))
                else replace_minute current_time next_interval)
         in case target of
              Inl e \<Rightarrow> Inl e
            | Inr target_time \<Rightarrow>
                Inr (max 0 (int_total_seconds (target_time - current_time)))))"

definition market :: config where
  "market = \<lparr>MARKET_OPEN_HOUR = 9, MARKET_CLOSE_HOUR = 16, UPDATE_INTERVAL_MINUTES = 10\<rparr>"

subsection \<open>Clock arithmetic\<close>

lemma hour_split: "t mod us_per_hour = us_per_minute * minute t + t mod us_per_minute"
  using zmod_zmult2_eq [of 60 t us_per_minute]
  by (simp add: minute_def us_per_hour_def us_per_minute_def)

lemma minute_range: "0 \<le> minute t \<and> minute t < 60"
  by (simp add: minute_def)

lemma offset_bounds:
  "minute t * us_per_minute \<le> t mod us_per_hour \<and>
   t mod us_per_hour < (minute t + 1) * us_per_minute"
proof -
  have "0 \<le> t mod us_per_minute \<and> t mod us_per_minute < us_per_minute"
    by (simp add: us_per_minute_def)
  then show ?thesis
    using hour_split [of t] by (simp add: algebra_simps)
qed

lemma top_of_hour_eq: "top_of_hour t = t - t mod us_per_hour"
  by (simp add: top_of_hour_def minus_mod_eq_div_mult)

lemma top_of_hour_next: "top_of_hour (t + us_per_hour) = top_of_hour t + us_per_hour"
  by (simp add: top_of_hour_def us_per_hour_def algebra_simps)

lemma top_of_hour_offset:
  assumes "0 \<le> x" "x < us_per_hour"
  shows "(top_of_hour t + x) mod us_per_hour = x"
proof -
  have "(top_of_hour t + x) mod us_per_hour = x mod us_per_hour"
    by (simp add: top_of_hour_def)
  with assms show ?thesis by simp
qed

lemma div_bounds:
  assumes "1 \<le> (i::int)"
  shows "(m div i) * i \<le> m \<and> m < (m div i + 1) * i"
proof -
  have e: "i * (m div i) + m mod i = m"
    by (rule mult_div_mod_eq)
  have b: "0 \<le> m mod i \<and> m mod i < i"
    using assms by simp
  from e b have "i * (m div i) \<le> m \<and> m < i * (m div i) + i"
    by linarith
  then show ?thesis
    by (simp add: algebra_simps)
qed

lemma between_multiples:
  "0 < (p::int) \<Longrightarrow> k * p < x \<Longrightarrow> x < (k + 1) * p \<Longrightarrow> x mod p \<noteq> 0"
  by auto

subsection \<open>Boundaries of the update interval\<close>

text \<open>
  A time point is a boundary when its offset from the top of its hour is an integer
  multiple of the interval; the top of every hour is one (the multiple 0).
\<close>

definition is_boundary :: "config \<Rightarrow> datetime \<Rightarrow> bool" where
  "is_boundary cfg t =
     ((t mod us_per_hour) mod (UPDATE_INTERVAL_MINUTES cfg * us_per_minute) = 0)"

text \<open>
  The \<^verbatim>\<open>target_time\<close> of \<^verbatim>\<open>_calculate_wait_until_next_interval\<close> for a positive interval
  (where neither the division nor \<^verbatim>\<open>replace\<close> raises); \<^verbatim>\<open>get_next_update_time\<close> returns
  the same time in market hours.
\<close>

definition next_target :: "config \<Rightarrow> datetime \<Rightarrow> datetime" where
  "next_target cfg now =
     (let n = (minute now div UPDATE_INTERVAL_MINUTES cfg + 1) * UPDATE_INTERVAL_MINUTES cfg
      in if n \<ge> 60 then top_of_hour now + us_per_hour
         else top_of_hour now + n * us_per_minute)"

lemma next_target_window:
  fixes cfg :: config and now :: datetime
  assumes i: "1 \<le> UPDATE_INTERVAL_MINUTES cfg"
  defines "p \<equiv> UPDATE_INTERVAL_MINUTES cfg * us_per_minute"
  defines "k \<equiv> minute now div UPDATE_INTERVAL_MINUTES cfg"
  defines "x \<equiv> next_target cfg now - top_of_hour now"
  shows "k * p \<le> now mod us_per_hour" and "now mod us_per_hour < x"
    and "x \<le> (k + 1) * p" and "x \<le> us_per_hour" and "x mod p = 0 \<or> x = us_per_hour"
proof -
  let ?I = "UPDATE_INTERVAL_MINUTES cfg"
  let ?m = "minute now"
  define n where "n = (k + 1) * ?I"
  have db: "k * ?I \<le> ?m \<and> ?m < n"
    unfolding k_def n_def using div_bounds [OF i] by simp
  have ob: "?m * us_per_minute \<le> now mod us_per_hour \<and>
      now mod us_per_hour < (?m + 1) * us_per_minute"
    by (rule offset_bounds)
  have pos: "0 \<le> us_per_minute"
    by (simp add: us_per_minute_def)
  have h60: "us_per_hour = 60 * us_per_minute"
    by (simp add: us_per_hour_def us_per_minute_def)
  have "(k * ?I) * us_per_minute \<le> ?m * us_per_minute"
    using db pos by (intro mult_right_mono) simp_all
  moreover have "(k * ?I) * us_per_minute = k * p"
    by (simp add: p_def mult.assoc)
  ultimately show "k * p \<le> now mod us_per_hour"
    using ob by linarith
  have np: "n * us_per_minute = (k + 1) * p"
    by (simp add: p_def n_def mult.assoc)
  have xdef: "x = (if n \<ge> 60 then us_per_hour else n * us_per_minute)"
    by (simp add: x_def next_target_def k_def n_def Let_def)
  have m1: "(?m + 1) * us_per_minute \<le> n * us_per_minute"
    using db pos by (intro mult_right_mono) simp_all
  have hb: "now mod us_per_hour < us_per_hour"
    by (simp add: us_per_hour_def)
  show "now mod us_per_hour < x"
  proof (cases "n \<ge> 60")
    case True
    with xdef hb show ?thesis by simp
  next
    case False
    with xdef have "x = n * us_per_minute" by simp
    with ob m1 show ?thesis by linarith
  qed
  show "x \<le> (k + 1) * p"
  proof (cases "n \<ge> 60")
    case True
    then have "60 * us_per_minute \<le> n * us_per_minute"
      using pos by (intro mult_right_mono) simp_all
    moreover from True xdef have "x = us_per_hour" by simp
    ultimately show ?thesis
      using np h60 by linarith
  next
    case False
    with xdef np show ?thesis by simp
  qed
  show "x \<le> us_per_hour"
  proof (cases "n \<ge> 60")
    case True
    with xdef show ?thesis by simp
  next
    case False
    then have "n * us_per_minute \<le> 60 * us_per_minute"
      using pos by (intro mult_right_mono) simp_all
    moreover from False xdef have "x = n * us_per_minute" by simp
    ultimately show ?thesis
      using h60 by linarith
  qed
  show "x mod p = 0 \<or> x = us_per_hour"
  proof (cases "n \<ge> 60")
    case True
    with xdef show ?thesis by simp
  next
    case False
    with xdef np have "x = (k + 1) * p" by simp
    then show ?thesis by simp
  qed
qed


lemma next_target_after:
  assumes "1 \<le> UPDATE_INTERVAL_MINUTES cfg"
  shows "now < next_target cfg now"
  using next_target_window(2) [OF assms, of now] by (simp add: top_of_hour_eq)

lemma next_target_boundary:
  assumes "1 \<le> UPDATE_INTERVAL_MINUTES cfg"
  shows "is_boundary cfg (next_target cfg now)"
proof -
  let ?p = "UPDATE_INTERVAL_MINUTES cfg * us_per_minute"
  define x where "x = next_target cfg now - top_of_hour now"
  have t: "next_target cfg now = top_of_hour now + x"
    by (simp add: x_def)
  have lo: "0 \<le> x"
  proof -
    have "0 \<le> now mod us_per_hour" by (simp add: us_per_hour_def)
    with next_target_window(2) [OF assms, of now] show ?thesis by (simp add: x_def)
  qed
  have hi: "x \<le> us_per_hour"
    using next_target_window(4) [OF assms, of now] by (simp add: x_def)
  have alt: "x mod ?p = 0 \<or> x = us_per_hour"
    using next_target_window(5) [OF assms, of now] by (simp add: x_def)
  show ?thesis
  proof (cases "x = us_per_hour")
    case True
    then have "(top_of_hour now + x) mod us_per_hour = 0"
      by (simp add: top_of_hour_def)
    then show ?thesis by (simp add: is_boundary_def t)
  next
    case False
    with hi have "x < us_per_hour" by simp
    with lo have "(top_of_hour now + x) mod us_per_hour = x"
      by (rule top_of_hour_offset)
    with alt False show ?thesis by (simp add: is_boundary_def t)
  qed
qed

lemma next_target_least:
  assumes i: "1 \<le> UPDATE_INTERVAL_MINUTES cfg" and lo: "now < t" and hi: "t < next_target cfg now"
  shows "\<not> is_boundary cfg t"
proof -
  let ?p = "UPDATE_INTERVAL_MINUTES cfg * us_per_minute"
  let ?k = "minute now div UPDATE_INTERVAL_MINUTES cfg"
  define off where "off = t - top_of_hour now"
  have t: "t = top_of_hour now + off"
    by (simp add: off_def)
  have r: "now mod us_per_hour < off"
    using lo by (simp add: off_def top_of_hour_eq)
  have x: "off < next_target cfg now - top_of_hour now"
    using hi by (simp add: off_def)
  have "0 \<le> now mod us_per_hour" by (simp add: us_per_hour_def)
  with r have o0: "0 \<le> off" by simp
  have oh: "off < us_per_hour"
    using x next_target_window(4) [OF i, of now] by simp
  have m: "t mod us_per_hour = off"
    unfolding t using o0 oh by (rule top_of_hour_offset)
  have p: "0 < ?p"
    using i by (simp add: us_per_minute_def)
  have a: "?k * ?p < off"
    using r next_target_window(1) [OF i, of now] by simp
  have b: "off < (?k + 1) * ?p"
    using x next_target_window(3) [OF i, of now] by simp
  from p a b have "off mod ?p \<noteq> 0"
    by (rule between_multiples)
  then show ?thesis by (simp add: is_boundary_def m)
qed

lemma wait_is_floor:
  assumes i: "1 \<le> UPDATE_INTERVAL_MINUTES cfg"
  shows "calculate_wait_until_next_interval cfg now =
     Inr ((next_target cfg now - now) div us_per_second)"
proof -
  let ?I = "UPDATE_INTERVAL_MINUTES cfg"
  let ?n = "(minute now div ?I + 1) * ?I"
  have n0: "0 \<le> ?n"
    using div_bounds [OF i, of "minute now"] minute_range [of now] by simp
  have d: "0 < next_target cfg now - now"
    using next_target_after [OF i, of now] by simp
  then have s: "0 \<le> (next_target cfg now - now) div us_per_second"
    by (simp add: us_per_second_def)
  have tgt: "(if ?n \<ge> 60 then Inr (top_of_hour (now + us_per_hour))
       else replace_minute now ?n) = (Inr (next_target cfg now) :: pyerr + datetime)"
    using n0 by (simp add: next_target_def replace_minute_def top_of_hour_next Let_def)
  from i have "?I \<noteq> 0" by simp
  then show ?thesis
    using d s
    by (simp add: calculate_wait_until_next_interval_def Let_def tgt int_total_seconds_def)
qed

lemma whole_second_wait:
  assumes i: "1 \<le> UPDATE_INTERVAL_MINUTES cfg" and w: "microsecond now = 0"
  shows "0 < (next_target cfg now - now) div us_per_second"
proof -
  have h: "us_per_second dvd us_per_hour" and m: "us_per_second dvd us_per_minute"
    by (simp_all add: us_per_second_def us_per_hour_def us_per_minute_def)
  from w have n: "us_per_second dvd now"
    by (simp add: microsecond_def dvd_eq_mod_eq_0)
  have "us_per_second dvd top_of_hour now"
    using h by (simp add: top_of_hour_def)
  then have "us_per_second dvd next_target cfg now"
    using h m by (simp add: next_target_def Let_def)
  with n have "us_per_second dvd next_target cfg now - now"
    by (simp add: dvd_diff)
  moreover have "0 < next_target cfg now - now"
    using next_target_after [OF i, of now] by simp
  ultimately have "us_per_second \<le> next_target cfg now - now"
    by (rule zdvd_imp_le)
  then show ?thesis
    by (simp add: us_per_second_def pos_imp_zdiv_pos_iff)
qed

lemma boundary_whole_second:
  assumes "is_boundary cfg now"
  shows "microsecond now = 0"
proof -
  let ?p = "UPDATE_INTERVAL_MINUTES cfg * us_per_minute"
  have "us_per_second dvd ?p"
    by (simp add: us_per_second_def us_per_minute_def)
  moreover from assms have "?p dvd now mod us_per_hour"
    by (simp add: is_boundary_def dvd_eq_mod_eq_0)
  ultimately have "us_per_second dvd now mod us_per_hour"
    by (rule dvd_trans)
  moreover have "us_per_second dvd us_per_hour"
    by (simp add: us_per_second_def us_per_hour_def)
  ultimately have "us_per_second dvd now"
    by (simp add: dvd_mod_iff)
  then show ?thesis
    by (simp add: microsecond_def dvd_eq_mod_eq_0)
qed

subsection \<open>Clock readings\<close>

lemma datetime_of_split:
  "datetime_of d h m s us =
     (d * 24 + h) * us_per_hour + (m * us_per_minute + s * us_per_second + us)"
  by (simp add: datetime_of_def us_per_hour_def us_per_minute_def us_per_second_def
      algebra_simps)

lemma within_hour:
  assumes "0 \<le> m" "m < 60" "0 \<le> s" "s < 60" "0 \<le> us" "us < 1000000"
  shows "0 \<le> m * us_per_minute + s * us_per_second + us \<and>
     m * us_per_minute + s * us_per_second + us < us_per_hour"
  using assms by (simp add: us_per_hour_def us_per_minute_def us_per_second_def)

lemma top_of_hour_datetime_of:
  assumes "0 \<le> m" "m < 60" "0 \<le> s" "s < 60" "0 \<le> us" "us < 1000000"
  shows "top_of_hour (datetime_of d h m s us) = (d * 24 + h) * us_per_hour"
proof -
  let ?r = "m * us_per_minute + s * us_per_second + us"
  have "0 \<le> ?r \<and> ?r < us_per_hour"
    using assms by (rule within_hour)
  then have "?r div us_per_hour = 0"
    by (simp add: div_pos_pos_trivial)
  moreover have "us_per_hour \<noteq> 0"
    by (simp add: us_per_hour_def)
  ultimately have "((d * 24 + h) * us_per_hour + ?r) div us_per_hour = d * 24 + h"
    by simp
  then show ?thesis
    by (simp only: top_of_hour_def datetime_of_split)
qed

lemma hour_datetime_of:
  assumes "0 \<le> h" "h < 24" "0 \<le> m" "m < 60" "0 \<le> s" "s < 60" "0 \<le> us" "us < 1000000"
  shows "hour (datetime_of d h m s us) = h"
proof -
  have "us_per_hour \<noteq> 0"
    by (simp add: us_per_hour_def)
  then have "datetime_of d h m s us div us_per_hour = d * 24 + h"
    using top_of_hour_datetime_of [OF assms(3-8), of d h]
    by (simp add: top_of_hour_def)
  then show ?thesis
    using assms(1,2) by (simp add: hour_def)
qed

lemma minute_datetime_of:
  assumes "0 \<le> m" "m < 60" "0 \<le> s" "s < 60" "0 \<le> us" "us < 1000000"
  shows "minute (datetime_of d h m s us) = m"
proof -
  let ?r = "s * us_per_second + us"
  have split: "datetime_of d h m s us = ((d * 24 + h) * 60 + m) * us_per_minute + ?r"
    by (simp add: datetime_of_def us_per_minute_def us_per_second_def algebra_simps)
  have "0 \<le> ?r \<and> ?r < us_per_minute"
    using assms by (simp add: us_per_minute_def us_per_second_def)
  then have "?r div us_per_minute = 0"
    by (simp add: div_pos_pos_trivial)
  moreover have "us_per_minute \<noteq> 0"
    by (simp add: us_per_minute_def)
  ultimately have "(((d * 24 + h) * 60 + m) * us_per_minute + ?r) div us_per_minute =
      (d * 24 + h) * 60 + m"
    by simp
  then have "minute (datetime_of d h m s us) = ((d * 24 + h) * 60 + m) mod 60"
    by (simp only: minute_def split)
  also have "\<dots> = m mod 60"
    by (simp only: mod_mult_self3)
  finally show ?thesis
    using assms(1,2) by simp
qed

lemma wait_datetime_of:
  assumes i: "1 \<le> UPDATE_INTERVAL_MINUTES cfg"
    and r: "0 \<le> m" "m < 60" "0 \<le> s" "s < 60" "0 \<le> us" "us < 1000000"
  shows "calculate_wait_until_next_interval cfg (datetime_of d h m s us) =
     Inr (((let n = (m div UPDATE_INTERVAL_MINUTES cfg + 1) * UPDATE_INTERVAL_MINUTES cfg
            in if n \<ge> 60 then us_per_hour else n * us_per_minute)
           - (m * us_per_minute + s * us_per_second + us)) div us_per_second)"
proof -
  let ?t = "datetime_of d h m s us"
  have "next_target cfg ?t - ?t =
      (let n = (m div UPDATE_INTERVAL_MINUTES cfg + 1) * UPDATE_INTERVAL_MINUTES cfg
       in if n \<ge> 60 then us_per_hour else n * us_per_minute)
      - (m * us_per_minute + s * us_per_second + us)"
    unfolding next_target_def minute_datetime_of [OF r] top_of_hour_datetime_of [OF r]
    by (simp add: datetime_of_split Let_def)
  then show ?thesis
    by (simp only: wait_is_floor [OF i])
qed

subsection \<open>When to update\<close>

text \<open>
  C3. \<open>should_update\<close> is true when \<open>force\<close> is set; otherwise false when the hour
  of \<open>now\<close> is before the opening hour or not before the closing hour; otherwise true
  when no update has completed; otherwise true exactly when at least the interval has
  passed since the last update. With the market open from 9 to 16 and an interval of 10
  minutes, on every day: false at 08:59; true at 09:00 with no last update; with the
  last update at 09:00, false at 09:05 and true at 09:10; false at 16:00 whatever the
  last update.
\<close>

theorem should_update_decision:
  "(force \<longrightarrow> should_update cfg self now force) \<and>
   (\<not> force \<and> (hour now < MARKET_OPEN_HOUR cfg \<or> MARKET_CLOSE_HOUR cfg \<le> hour now)
      \<longrightarrow> \<not> should_update cfg self now force) \<and>
   (\<not> force \<and> MARKET_OPEN_HOUR cfg \<le> hour now \<and> hour now < MARKET_CLOSE_HOUR cfg \<and>
    last_update self = None
      \<longrightarrow> should_update cfg self now force) \<and>
   (\<forall>l. \<not> force \<and> MARKET_OPEN_HOUR cfg \<le> hour now \<and> hour now < MARKET_CLOSE_HOUR cfg \<and>
    last_update self = Some l
      \<longrightarrow> (should_update cfg self now force
            \<longleftrightarrow> UPDATE_INTERVAL_MINUTES cfg * us_per_minute \<le> now - l)) \<and>
   \<not> should_update market self (datetime_of d 8 59 0 0) False \<and>
   should_update market \<lparr>last_update = None\<rparr> (datetime_of d 9 0 0 0) False \<and>
   \<not> should_update market \<lparr>last_update = Some (datetime_of d 9 0 0 0)\<rparr>
       (datetime_of d 9 5 0 0) False \<and>
   should_update market \<lparr>last_update = Some (datetime_of d 9 0 0 0)\<rparr>
       (datetime_of d 9 10 0 0) False \<and>
   \<not> should_update market self (datetime_of d 16 0 0 0) False"
proof -
  have general:
    "(force \<longrightarrow> should_update cfg self now force) \<and>
     (\<not> force \<and> (hour now < MARKET_OPEN_HOUR cfg \<or> MARKET_CLOSE_HOUR cfg \<le> hour now)
        \<longrightarrow> \<not> should_update cfg self now force) \<and>
     (\<not> force \<and> MARKET_OPEN_HOUR cfg \<le> hour now \<and> hour now < MARKET_CLOSE_HOUR cfg \<and>
      last_update self = None
        \<longrightarrow> should_update cfg self now force) \<and>
     (\<forall>l. \<not> force \<and> MARKET_OPEN_HOUR cfg \<le> hour now \<and> hour now < MARKET_CLOSE_HOUR cfg \<and>
      last_update self = Some l
        \<longrightarrow> (should_update cfg self now force
              \<longleftrightarrow> UPDATE_INTERVAL_MINUTES cfg * us_per_minute \<le> now - l))"
    by (auto simp add: should_update_def is_outside_market_hours_def Let_def)
  have h859: "hour (datetime_of d 8 59 0 0) = 8"
    by (rule hour_datetime_of) simp_all
  have h900: "hour (datetime_of d 9 0 0 0) = 9"
    by (rule hour_datetime_of) simp_all
  have h905: "hour (datetime_of d 9 5 0 0) = 9"
    by (rule hour_datetime_of) simp_all
  have h910: "hour (datetime_of d 9 10 0 0) = 9"
    by (rule hour_datetime_of) simp_all
  have h1600: "hour (datetime_of d 16 0 0 0) = 16"
    by (rule hour_datetime_of) simp_all
  have d5: "datetime_of d 9 5 0 0 - datetime_of d 9 0 0 0 = 5 * us_per_minute"
    by (simp add: datetime_of_def us_per_minute_def)
  have d10: "datetime_of d 9 10 0 0 - datetime_of d 9 0 0 0 = 10 * us_per_minute"
    by (simp add: datetime_of_def us_per_minute_def)
  have e1: "\<not> should_update market self (datetime_of d 8 59 0 0) False"
    by (simp add: should_update_def is_outside_market_hours_def market_def h859)
  have e2: "should_update market \<lparr>last_update = None\<rparr> (datetime_of d 9 0 0 0) False"
    by (simp add: should_update_def is_outside_market_hours_def market_def h900)
  have e3: "\<not> should_update market \<lparr>last_update = Some (datetime_of d 9 0 0 0)\<rparr>
       (datetime_of d 9 5 0 0) False"
    by (simp add: should_update_def is_outside_market_hours_def market_def h905 d5
        us_per_minute_def)
  have e4: "should_update market \<lparr>last_update = Some (datetime_of d 9 0 0 0)\<rparr>
       (datetime_of d 9 10 0 0) False"
    by (simp add: should_update_def is_outside_market_hours_def market_def h910 d10
        us_per_minute_def)
  have e5: "\<not> should_update market self (datetime_of d 16 0 0 0) False"
    by (simp add: should_update_def is_outside_market_hours_def market_def h1600)
  from general e1 e2 e3 e4 e5 show ?thesis
    by blast
qed

theorem should_update_decision_witness:
  "\<not> False \<and>
   MARKET_OPEN_HOUR market \<le> hour (datetime_of 0 9 10 0 0) \<and>
   hour (datetime_of 0 9 10 0 0) < MARKET_CLOSE_HOUR market \<and>
   last_update \<lparr>last_update = Some (datetime_of 0 9 0 0 0)\<rparr> = Some (datetime_of 0 9 0 0 0) \<and>
   UPDATE_INTERVAL_MINUTES market * us_per_minute
     \<le> datetime_of 0 9 10 0 0 - datetime_of 0 9 0 0 0 \<and>
   should_update market \<lparr>last_update = Some (datetime_of 0 9 0 0 0)\<rparr>
     (datetime_of 0 9 10 0 0) False"
proof -
  let ?self = "\<lparr>last_update = Some (datetime_of 0 9 0 0 0)\<rparr>"
  let ?now = "datetime_of 0 9 10 0 0"
  have hyps: "\<not> False \<and> MARKET_OPEN_HOUR market \<le> hour ?now \<and>
      hour ?now < MARKET_CLOSE_HOUR market \<and>
      last_update ?self = Some (datetime_of 0 9 0 0 0)"
    by code_simp
  have late: "UPDATE_INTERVAL_MINUTES market * us_per_minute
      \<le> ?now - datetime_of 0 9 0 0 0"
    by code_simp
  from should_update_decision [of False market ?self ?now 0]
  have "\<forall>l. \<not> False \<and> MARKET_OPEN_HOUR market \<le> hour ?now \<and>
      hour ?now < MARKET_CLOSE_HOUR market \<and> last_update ?self = Some l
      \<longrightarrow> (should_update market ?self ?now False
            \<longleftrightarrow> UPDATE_INTERVAL_MINUTES market * us_per_minute \<le> ?now - l)"
    by blast
  with hyps late have "should_update market ?self ?now False"
    by blast
  with hyps late show ?thesis
    by blast
qed

subsection \<open>Waiting for the next interval\<close>

text \<open>
  For every \<open>now\<close> and every interval of at least one minute,
  \<open>calculate_wait_until_next_interval\<close> returns the whole seconds (the fraction cut
  off) from \<open>now\<close> to \<open>next_target\<close>, which is the smallest boundary strictly after
  \<open>now\<close>: the next multiple of the interval past the top of the hour, or the top of the
  next hour when that multiple would be 60 minutes or more. The value is never
  negative. It is positive exactly when \<open>now\<close> is at least one second before that
  boundary: so whenever \<open>now\<close> has no fraction of a second, and so whenever \<open>now\<close> sits
  on a boundary itself. With an interval of 10 minutes it is 180 at 09:07 and 600 at
  09:50, on every day.
\<close>

lemma wait_until_next_boundary:
  "(1 \<le> UPDATE_INTERVAL_MINUTES cfg \<longrightarrow>
      now < next_target cfg now \<and>
      is_boundary cfg (next_target cfg now) \<and>
      (\<forall>t. now < t \<and> t < next_target cfg now \<longrightarrow> \<not> is_boundary cfg t) \<and>
      calculate_wait_until_next_interval cfg now =
        Inr ((next_target cfg now - now) div us_per_second) \<and>
      0 \<le> (next_target cfg now - now) div us_per_second \<and>
      (0 < (next_target cfg now - now) div us_per_second
         \<longleftrightarrow> now + us_per_second \<le> next_target cfg now) \<and>
      (microsecond now = 0 \<longrightarrow> 0 < (next_target cfg now - now) div us_per_second) \<and>
      (is_boundary cfg now \<longrightarrow> 0 < (next_target cfg now - now) div us_per_second)) \<and>
   calculate_wait_until_next_interval market (datetime_of d 9 7 0 0) = Inr 180 \<and>
   calculate_wait_until_next_interval market (datetime_of d 9 50 0 0) = Inr 600"
proof (intro conjI impI allI)
  assume i: "1 \<le> UPDATE_INTERVAL_MINUTES cfg"
  show "now < next_target cfg now"
    using i by (rule next_target_after)
  show "is_boundary cfg (next_target cfg now)"
    using i by (rule next_target_boundary)
  show "calculate_wait_until_next_interval cfg now =
        Inr ((next_target cfg now - now) div us_per_second)"
    using i by (rule wait_is_floor)
  have d: "0 < next_target cfg now - now"
    using next_target_after [OF i, of now] by simp
  then show "0 \<le> (next_target cfg now - now) div us_per_second"
    by (simp add: us_per_second_def)
  show "(0 < (next_target cfg now - now) div us_per_second)
      = (now + us_per_second \<le> next_target cfg now)"
    by (simp add: us_per_second_def pos_imp_zdiv_pos_iff) linarith
  {
    assume "microsecond now = 0"
    with i show "0 < (next_target cfg now - now) div us_per_second"
      by (rule whole_second_wait)
  }
  {
    assume "is_boundary cfg now"
    then have "microsecond now = 0"
      by (rule boundary_whole_second)
    with i show "0 < (next_target cfg now - now) div us_per_second"
      by (rule whole_second_wait)
  }
  {
    fix t
    assume "now < t \<and> t < next_target cfg now"
    then have "now < t" and "t < next_target cfg now"
      by simp_all
    with i show "\<not> is_boundary cfg t"
      by (rule next_target_least)
  }
next
  have i: "1 \<le> UPDATE_INTERVAL_MINUTES market"
    by (simp add: market_def)
  show "calculate_wait_until_next_interval market (datetime_of d 9 7 0 0) = Inr 180"
    unfolding wait_datetime_of [OF i, of 7 0 0 d 9, simplified]
    by (simp add: market_def us_per_hour_def us_per_minute_def us_per_second_def)
next
  have i: "1 \<le> UPDATE_INTERVAL_MINUTES market"
    by (simp add: market_def)
  show "calculate_wait_until_next_interval market (datetime_of d 9 50 0 0) = Inr 600"
    unfolding wait_datetime_of [OF i, of 50 0 0 d 9, simplified]
    by (simp add: market_def us_per_hour_def us_per_minute_def us_per_second_def)
qed

text \<open>
  C4, evaluated on the code with an interval of 10 minutes. The wait must be strictly
  positive at every reading of the clock. Half a second before 09:10:00 the code
  returns 0: the seconds to the boundary are truncated to an integer. A process that
  reads the clock at 09:07:00.3 is told to wait 179 seconds, wakes at 09:09:59.3 and
  is told to wait 0 seconds there; \<open>should_update\<close> is false at that reading when the
  last update was at 09:00:02, so nothing but the clock moves it on.
\<close>

theorem wait_zero_before_boundary:
  "calculate_wait_until_next_interval market (datetime_of 0 9 9 59 500000) = Inr 0 \<and>
   calculate_wait_until_next_interval market (datetime_of 0 9 7 0 300000) = Inr 179 \<and>
   datetime_of 0 9 7 0 300000 + 179 * us_per_second = datetime_of 0 9 9 59 300000 \<and>
   calculate_wait_until_next_interval market (datetime_of 0 9 9 59 300000) = Inr 0 \<and>
   \<not> should_update market \<lparr>last_update = Some (datetime_of 0 9 0 2 0)\<rparr>
       (datetime_of 0 9 9 59 300000) False"
  by code_simp

section \<open>The spreadsheet (sheets\_client.py)\<close>

subsection \<open>Column letters\<close>

text \<open>
  \<^verbatim>\<open>_get_column_letter\<close>: the \<^verbatim>\<open>while col_num > 0\<close> loop, with the string built so far as
  the accumulator. \<^verbatim>\<open>divmod\<close> on ints is floor division and its remainder, as \<open>div\<close>
  and \<open>mod\<close> on \<open>int\<close> are.
\<close>

function column_letter_loop :: "int \<Rightarrow> string \<Rightarrow> string" where
  "column_letter_loop col_num str =
     (if col_num > 0 then
        column_letter_loop ((col_num - 1) div 26) (char_of (65 + (col_num - 1) mod 26) # str)
      else str)"
  by pat_completeness auto
termination
  by (relation "measure (\<lambda>(col_num, str). nat col_num)") auto

declare column_letter_loop.simps [simp del]

definition get_column_letter :: "int \<Rightarrow> string" where
  "get_column_letter col_num = column_letter_loop col_num []"

text \<open>
  Bijective base 26, as the specification has it: the digits are the letters A to Z with
  the values 1 to 26 (there is no digit of value 0), the most significant first.
\<close>

definition is_letter :: "char \<Rightarrow> bool" where
  "is_letter c = (65 \<le> (of_char c :: int) \<and> (of_char c :: int) \<le> 90)"

definition letter_value :: "char \<Rightarrow> int" where
  "letter_value c = of_char c - 64"

definition column_number :: "string \<Rightarrow> int" where
  "column_number s = foldl (\<lambda>acc c. acc * 26 + letter_value c) 0 s"

lemma column_quotient_less:
  assumes "0 < (n::int)"
  shows "nat ((n - 1) div 26) < nat n"
proof -
  have e: "26 * ((n - 1) div 26) + (n - 1) mod 26 = n - 1"
    by (rule mult_div_mod_eq)
  have m: "0 \<le> (n - 1) mod 26"
    by simp
  have q: "0 \<le> (n - 1) div 26"
    using assms by simp
  from e m q have "(n - 1) div 26 < n"
    by linarith
  with assms show ?thesis by simp
qed

lemma column_letter_loop_acc:
  "column_letter_loop n acc = column_letter_loop n [] @ acc"
proof (induction "nat n" arbitrary: n acc rule: less_induct)
  case less
  show ?case
  proof (cases "n > 0")
    case True
    let ?q = "(n - 1) div 26"
    let ?c = "char_of (65 + (n - 1) mod 26) :: char"
    have IH: "column_letter_loop ?q a = column_letter_loop ?q [] @ a" for a
      using column_quotient_less [OF True] by (rule less)
    have "column_letter_loop n acc = column_letter_loop ?q (?c # acc)"
      using True by (simp add: column_letter_loop.simps [of n])
    also have "\<dots> = (column_letter_loop ?q [] @ [?c]) @ acc"
      using IH [of "?c # acc"] by simp
    also have "column_letter_loop ?q [] @ [?c] = column_letter_loop n []"
      using True IH [of "[?c]"] by (simp add: column_letter_loop.simps [of n])
    finally show ?thesis .
  next
    case False
    then show ?thesis
      by (simp add: column_letter_loop.simps)
  qed
qed

lemma get_column_letter_step:
  assumes "0 < n"
  shows "get_column_letter n =
     get_column_letter ((n - 1) div 26) @ [char_of (65 + (n - 1) mod 26)]"
proof -
  have "get_column_letter n =
      column_letter_loop ((n - 1) div 26) [char_of (65 + (n - 1) mod 26)]"
    using assms by (simp add: get_column_letter_def column_letter_loop.simps [of n])
  then show ?thesis
    by (simp add: get_column_letter_def column_letter_loop_acc [of _ "[_]"])
qed

lemma get_column_letter_nonpos: "n \<le> 0 \<Longrightarrow> get_column_letter n = []"
  by (simp add: get_column_letter_def column_letter_loop.simps)

lemma column_number_snoc: "column_number (s @ [c]) = column_number s * 26 + letter_value c"
  by (simp add: column_number_def)

lemma letter_of_remainder:
  assumes "0 \<le> r" "r < 26"
  shows "is_letter (char_of (65 + r))" and "letter_value (char_of (65 + r)) = r + 1"
proof -
  have "(65 + r) mod 256 = 65 + r"
    using assms by simp
  then have "(of_char (char_of (65 + r) :: char) :: int) = 65 + r"
    by simp
  then show "is_letter (char_of (65 + r))" and "letter_value (char_of (65 + r)) = r + 1"
    using assms by (simp_all add: is_letter_def letter_value_def)
qed

lemma column_number_get_column_letter:
  "0 \<le> n \<Longrightarrow> column_number (get_column_letter n) = n \<and> list_all is_letter (get_column_letter n)"
proof (induction "nat n" arbitrary: n rule: less_induct)
  case less
  show ?case
  proof (cases "n > 0")
    case True
    let ?q = "(n - 1) div 26"
    let ?r = "(n - 1) mod 26"
    have q: "0 \<le> ?q" using True by simp
    have IH: "column_number (get_column_letter ?q) = ?q \<and> list_all is_letter (get_column_letter ?q)"
      using column_quotient_less [OF True] q by (rule less)
    have r: "0 \<le> ?r" "?r < 26" by simp_all
    have "column_number (get_column_letter n) = ?q * 26 + (?r + 1)"
      using IH letter_of_remainder(2) [OF r]
      by (simp only: get_column_letter_step [OF True] column_number_snoc)
    moreover have "?q * 26 + ?r = n - 1"
      by simp
    ultimately have "column_number (get_column_letter n) = n"
      by linarith
    moreover have "list_all is_letter (get_column_letter n)"
      using IH letter_of_remainder(1) [OF r]
      by (simp add: get_column_letter_step [OF True])
    ultimately show ?thesis by simp
  next
    case False
    with less.prems have "n = 0" by simp
    then show ?thesis
      by (simp add: get_column_letter_nonpos column_number_def)
  qed
qed

lemma column_number_nonneg: "list_all is_letter s \<Longrightarrow> 0 \<le> column_number s"
proof (induction s rule: rev_induct)
  case Nil
  show ?case by (simp add: column_number_def)
next
  case (snoc c s)
  then have "0 \<le> column_number s" and "1 \<le> letter_value c"
    by (simp_all add: is_letter_def letter_value_def)
  then show ?case
    by (simp add: column_number_snoc)
qed

lemma get_column_letter_column_number:
  "list_all is_letter s \<Longrightarrow> get_column_letter (column_number s) = s"
proof (induction s rule: rev_induct)
  case Nil
  show ?case by (simp add: column_number_def get_column_letter_nonpos)
next
  case (snoc c s)
  let ?N = "column_number s"
  let ?d = "letter_value c"
  from snoc.prems have s: "list_all is_letter s" and c: "is_letter c"
    by simp_all
  have N: "0 \<le> ?N" using s by (rule column_number_nonneg)
  have d: "1 \<le> ?d" "?d \<le> 26"
    using c by (simp_all add: is_letter_def letter_value_def)
  have pos: "0 < ?N * 26 + ?d" using N d by simp
  have sw: "?N * 26 + ?d - 1 = (?d - 1) + ?N * 26"
    by simp
  have q: "(?N * 26 + ?d - 1) div 26 = ?N"
    unfolding sw using d by (simp add: div_pos_pos_trivial)
  have r: "(?N * 26 + ?d - 1) mod 26 = ?d - 1"
    unfolding sw using d by (simp add: mod_pos_pos_trivial)
  have ch: "char_of (65 + (?d - 1)) = c"
    by (simp add: letter_value_def)
  have "get_column_letter (column_number (s @ [c])) = get_column_letter ?N @ [c]"
    unfolding column_number_snoc get_column_letter_step [OF pos] q r ch ..
  with snoc.IH [OF s] show ?case by simp
qed

text \<open>
  C8. For every column index \<open>n\<close> of at least 1, \<open>get_column_letter n\<close> is a non-empty
  string of the letters A to Z whose value in bijective base 26 is \<open>n\<close>; and it is the
  only such string, since every string of letters is the column letter of its own
  value. So 1 is A, 26 is Z, 27 is AA, 52 is AZ, 53 is BA, 702 is ZZ and 703 is AAA.
\<close>

theorem column_letter_bijective_base26:
  "(1 \<le> n \<longrightarrow>
      get_column_letter n \<noteq> [] \<and> list_all is_letter (get_column_letter n) \<and>
      column_number (get_column_letter n) = n) \<and>
   (list_all is_letter s \<longrightarrow> get_column_letter (column_number s) = s) \<and>
   map get_column_letter [1, 26, 27, 52, 53, 702, 703] =
     [''A'', ''Z'', ''AA'', ''AZ'', ''BA'', ''ZZ'', ''AAA'']"
proof (intro conjI impI)
  assume n: "1 \<le> n"
  then have pos: "0 < n" by simp
  show "get_column_letter n \<noteq> []"
    by (simp add: get_column_letter_step [OF pos])
  from n have "0 \<le> n" by simp
  then have both: "column_number (get_column_letter n) = n \<and>
      list_all is_letter (get_column_letter n)"
    by (rule column_number_get_column_letter)
  from both show "list_all is_letter (get_column_letter n)" by simp
  from both show "column_number (get_column_letter n) = n" by simp
next
  assume "list_all is_letter s"
  then show "get_column_letter (column_number s) = s"
    by (rule get_column_letter_column_number)
next
  show "map get_column_letter [1, 26, 27, 52, 53, 702, 703] =
     [''A'', ''Z'', ''AA'', ''AZ'', ''BA'', ''ZZ'', ''AAA'']"
    by (simp add: get_column_letter_step get_column_letter_nonpos char_of_def)
qed

theorem column_letter_bijective_base26_witness:
  "(1::int) \<le> 28 \<and> list_all is_letter ''AB'' \<and>
   get_column_letter 28 \<noteq> [] \<and> list_all is_letter (get_column_letter 28) \<and>
   column_number (get_column_letter 28) = 28 \<and>
   get_column_letter (column_number ''AB'') = ''AB''"
proof -
  have n: "(1::int) \<le> 28"
    by simp
  have s: "list_all is_letter ''AB''"
    by (simp add: is_letter_def)
  from n s column_letter_bijective_base26 [of 28 "''AB''"]
  show ?thesis
    by blast
qed

subsection \<open>Writing the prices\<close>

text \<open>\<^verbatim>\<open>str(i)\<close> of an int, as the f-string \<^verbatim>\<open>f"{letter}{price_row}"\<close> formats the row.\<close>

function digits10 :: "nat \<Rightarrow> string" where
  "digits10 n =
     (if n < 10 then [char_of (48 + n)]
      else digits10 (n div 10) @ [char_of (48 + n mod 10)])"
  by pat_completeness auto
termination
  by (relation "measure (\<lambda>n. n)") auto

declare digits10.simps [simp del]

definition py_str_int :: "int \<Rightarrow> string" where
  "py_str_int i = (if i < 0 then CHR ''-'' # digits10 (nat (- i)) else digits10 (nat i))"

text \<open>
  The worksheet is the outside world. \<open>row_values\<close> is what \<^verbatim>\<open>worksheet.row_values(row)\<close>
  returns (a blank cell before the last filled one is the empty string), \<open>None\<close> when
  the call raises; \<open>batch_update_ok\<close> tells whether \<^verbatim>\<open>worksheet.batch_update\<close> goes
  through or raises. What \<open>update_prices\<close> does to the sheet is the list of writes it
  hands to \<^verbatim>\<open>batch_update\<close>: each an A1 address with the value for that cell.
\<close>

record worksheet =
  row_values :: "int \<Rightarrow> string list option"
  batch_update_ok :: bool

definition get_tickers :: "worksheet \<Rightarrow> int \<Rightarrow> string list" where
  "get_tickers ws row =
     (case row_values ws row of
        None \<Rightarrow> []
      | Some tickers \<Rightarrow> map py_strip (filter (\<lambda>ticker. py_strip ticker \<noteq> []) tickers))"

text \<open>The body of \<^verbatim>\<open>for col_index, ticker in enumerate(tickers, start=1)\<close>.\<close>

fun prepare_updates :: "prices \<Rightarrow> int \<Rightarrow> (int \<times> string) list \<Rightarrow> (string \<times> real) list" where
  "prepare_updates ticker_prices price_row [] = []"
| "prepare_updates ticker_prices price_row ((col_index, ticker) # rest) =
     (case map_of ticker_prices ticker of
        Some (Some price) \<Rightarrow>
          (get_column_letter col_index @ py_str_int price_row, price)
            # prepare_updates ticker_prices price_row rest
      | _ \<Rightarrow> prepare_updates ticker_prices price_row rest)"

definition update_prices :: "worksheet \<Rightarrow> prices \<Rightarrow> int \<Rightarrow> int
    \<Rightarrow> bool \<times> (string \<times> real) list" where
  "update_prices ws ticker_prices ticker_row price_row =
     (let tickers = get_tickers ws ticker_row;
          updates = prepare_updates ticker_prices price_row
                      (zip [1..int (length tickers)] tickers)
      in if updates \<noteq> [] then
           (if batch_update_ok ws then (True, updates) else (False, []))
         else (False, []))"

lemma prepare_updates_cells:
  "set (prepare_updates ticker_prices price_row cols) =
     {(get_column_letter c @ py_str_int price_row, p) | c t p.
        (c, t) \<in> set cols \<and> map_of ticker_prices t = Some (Some p)}"
proof (induction cols)
  case Nil
  show ?case by simp
next
  case (Cons ct cols)
  obtain c t where ct: "ct = (c, t)"
    by (cases ct)
  show ?case
  proof (cases "map_of ticker_prices t")
    case None
    with Cons ct show ?thesis by auto
  next
    case (Some v)
    with Cons ct show ?thesis by (cases v) auto
  qed
qed

lemma get_tickers_filled:
  assumes "row_values ws ticker_row = Some header"
    and "list_all (\<lambda>t. py_strip t \<noteq> []) header"
  shows "get_tickers ws ticker_row = map py_strip header"
proof -
  from assms(2) have "filter (\<lambda>t. py_strip t \<noteq> []) header = header"
    by (simp add: list_all_iff)
  with assms(1) show ?thesis
    by (simp add: get_tickers_def)
qed

lemma zip_columns:
  "zip [1..int (length ts)] ts = map (\<lambda>k. (int k + 1, ts ! k)) [0..<length ts]"
  by (rule nth_equalityI) (simp_all add: nth_upto)

lemma filled_header_writes:
  assumes "row_values ws ticker_row = Some header"
    and "list_all (\<lambda>t. py_strip t \<noteq> []) header"
  shows "set (prepare_updates ticker_prices price_row
            (zip [1..int (length (get_tickers ws ticker_row))] (get_tickers ws ticker_row))) =
     {(get_column_letter (int k + 1) @ py_str_int price_row, p) | k p.
        k < length header \<and> map_of ticker_prices (py_strip (header ! k)) = Some (Some p)}"
proof -
  let ?ts = "map py_strip header"
  have cols: "set (zip [1..int (length ?ts)] ?ts) =
      (\<lambda>k. (int k + 1, py_strip (header ! k))) ` {..<length header}"
    unfolding zip_columns by (auto simp add: image_iff)
  show ?thesis
    unfolding get_tickers_filled [OF assms] prepare_updates_cells cols
    by (auto simp add: image_iff)
qed

text \<open>
  C9, evaluated on the code. With the header row \<open>['', 'AAPL']\<close> (column A blank,
  AAPL in column B), the price row 3 and the mapping \<open>{AAPL: 5}\<close>, the one write goes
  to A3: \<open>get_tickers\<close> drops the blank cell, and the column index counts the cells that
  are left. The cell under AAPL is B3. A ticker whose price is absent is not written:
  with the header \<open>['AAPL', 'MSFT']\<close> and \<open>{AAPL: None, MSFT: 7}\<close> the one write is B3.
\<close>

theorem blank_header_shifts_column:
  "update_prices \<lparr>row_values = (\<lambda>row. Some [[], ''AAPL'']), batch_update_ok = True\<rparr>
     [(''AAPL'', Some 5)] 1 3 = (True, [(''A3'', 5)]) \<and>
   get_column_letter 2 @ py_str_int 3 = ''B3'' \<and>
   update_prices \<lparr>row_values = (\<lambda>row. Some [''AAPL'', ''MSFT'']), batch_update_ok = True\<rparr>
     [(''AAPL'', None), (''MSFT'', Some 7)] 1 3 = (True, [(''B3'', 7)])"
  by (simp add: update_prices_def get_tickers_def py_strip_def py_isspace_def
      get_column_letter_step get_column_letter_nonpos py_str_int_def digits10.simps
      char_of_def bit_Suc_0_iff Let_def upto_rec1)

end
